theory Spec2Isabelle
  imports Main
begin

section \<open>Python strings\<close>

text \<open>
  Python strings are modelled as \<open>string\<close>, one \<open>char\<close> per code point below 256.
  \<open>str.strip()\<close> removes the white-space code points 9-13, 28-32, 133 and 160 from both
  ends; \<open>str.lower()\<close> maps A-Z and the upper-case letters of Latin-1 to lower case.
\<close>

definition isspace :: "char \<Rightarrow> bool" where
  "isspace c = (c \<in> set [CHR 0x09, CHR 0x0A, CHR 0x0B, CHR 0x0C, CHR 0x0D,
                          CHR 0x1C, CHR 0x1D, CHR 0x1E, CHR 0x1F, CHR 0x20,
                          CHR 0x85, CHR 0xA0])"

definition strip :: "string \<Rightarrow> string" where
  "strip s = rev (dropWhile isspace (rev (dropWhile isspace s)))"

fun startswith :: "string \<Rightarrow> string \<Rightarrow> bool" where
  "startswith s [] = True"
| "startswith [] (p # ps) = False"
| "startswith (c # cs) (p # ps) = (c = p \<and> startswith cs ps)"

text \<open>\<open>contains s sub\<close> is Python's \<open>sub in s\<close>.\<close>

fun contains :: "string \<Rightarrow> string \<Rightarrow> bool" where
  "contains [] sub = (sub = [])"
| "contains (c # cs) sub = (startswith (c # cs) sub \<or> contains cs sub)"

definition lower_char :: "char \<Rightarrow> char" where
  "lower_char c =
     (let n = (of_char c :: nat)
      in if (65 \<le> n \<and> n \<le> 90) \<or> (192 \<le> n \<and> n \<le> 214) \<or> (216 \<le> n \<and> n \<le> 222)
         then char_of (n + 32) else c)"

definition lower :: "string \<Rightarrow> string" where
  "lower s = map lower_char s"

text \<open>\<open>str_nat n\<close> is \<open>str(n)\<close> for a non-negative integer.\<close>

fun str_nat :: "nat \<Rightarrow> string" where
  "str_nat n =
     (if n < 10 then [char_of (48 + n)]
      else str_nat (n div 10) @ [char_of (48 + n mod 10)])"

declare str_nat.simps [simp del]

text \<open>\<open>str_int i\<close> is \<open>str(i)\<close> for an integer.\<close>

definition str_int :: "int \<Rightarrow> string" where
  "str_int i = (if i < 0 then ''-'' @ str_nat (nat (- i)) else str_nat (nat i))"

section \<open>Browser pages\<close>

text \<open>
  A page is what the browser hands to one attempt. Each call the source makes on it either
  returns or raises; an exception is represented by its message \<open>str(e)\<close>.
  \<^item> \<open>goto url timeout\<close>: \<open>page.goto(url, wait_until="domcontentloaded", timeout=...)\<close>,
    \<open>None\<close> when the document was loaded;
  \<^item> \<open>wait_for timeout\<close>: \<open>page.locator(".ads-count-searchable").wait_for(state="visible",
    timeout=...)\<close>, \<open>None\<close> when the element became visible;
  \<^item> \<open>inner_text\<close>: \<open>locator.inner_text()\<close>;
  \<^item> \<open>no_ads_found\<close>: \<open>page.get_by_text("No ads found").count()\<close>;
  \<^item> \<open>title\<close>: \<open>page.title()\<close>.
\<close>

type_synonym exn = string

record page =
  goto :: "string \<Rightarrow> nat \<Rightarrow> exn option"
  wait_for :: "nat \<Rightarrow> exn option"
  inner_text :: "exn + string"
  no_ads_found :: "exn + nat"
  title :: "exn + string"

text \<open>
  Lines 22-23 and 111-113: wait for the element, then read its text and strip it. Either
  call may raise; the bare \<open>except:\<close> that follows drops the exception.
\<close>

definition visible_text :: "page \<Rightarrow> nat \<Rightarrow> string option" where
  "visible_text pg timeout =
     (case wait_for pg timeout of
        Some e \<Rightarrow> None
      | None \<Rightarrow> (case inner_text pg of Inl e \<Rightarrow> None | Inr text \<Rightarrow> Some (strip text)))"

section \<open>The single-shot extractor\<close>

definition single_goto_timeout :: nat where "single_goto_timeout = 60000"
definition single_wait_timeout :: nat where "single_wait_timeout = 30000"

definition scrape_ads_count :: "page \<Rightarrow> string \<Rightarrow> string" where
  "scrape_ads_count pg url =
     (case goto pg url single_goto_timeout of
        Some e \<Rightarrow> ''Error loading page: '' @ e
      | None \<Rightarrow>
          (case visible_text pg single_wait_timeout of
             Some text \<Rightarrow> if text = ''0 ads'' then ''no ads'' else text
           | None \<Rightarrow>
               (case no_ads_found pg of
                  Inl e \<Rightarrow> ''Error: '' @ e
                | Inr n \<Rightarrow>
                    if n > 0 then ''no ads''
                    else (case title pg of
                            Inl e \<Rightarrow> ''Error: '' @ e
                          | Inr t \<Rightarrow>
                              if contains t ''Google Ads'' then ''no ads''
                              else ''Error: Element not found''))))"

section \<open>The batch run\<close>

definition batch_goto_timeout :: nat where "batch_goto_timeout = 90000"
definition batch_wait_timeout :: nat where "batch_wait_timeout = 60000"

text \<open>
  The body of the \<open>try\<close> of one attempt (lines 101-134): the new value of \<open>result\<close> and
  whether the retry loop is left by \<open>break\<close>. Every path assigns \<open>result\<close>.
\<close>

definition try_page :: "page \<Rightarrow> string \<Rightarrow> string \<times> bool" where
  "try_page pg url =
     (case goto pg url batch_goto_timeout of
        Some e \<Rightarrow> (''Error: '' @ e, False)
      | None \<Rightarrow>
          (case visible_text pg batch_wait_timeout of
             Some text \<Rightarrow> (if text = ''0 ads'' then ''no ads'' else text, True)
           | None \<Rightarrow>
               (case no_ads_found pg of
                  Inl e \<Rightarrow> (''Error: '' @ e, False)
                | Inr n \<Rightarrow>
                    if n > 0 then (''no ads'', True)
                    else (case title pg of
                            Inl e \<Rightarrow> (''Error: '' @ e, False)
                          | Inr t \<Rightarrow>
                              if contains t ''Google Ads''
                              then (''Error: Element not found (Timeout)'', False)
                              else (''Error: Page load failed'', False)))))"

text \<open>
  What the run does to the outside world, in order: calls of the progress callback
  \<open>progress_callback(current, total, message)\<close>, \<open>p.chromium.launch\<close>,
  \<open>browser.new_context\<close>, \<open>context.new_page\<close>, \<open>page.close\<close>, \<open>time.sleep\<close>,
  \<open>browser.close\<close> and \<open>df.to_csv(path)\<close>. Every function below returns the events it
  emits. The browser calls outside any handler (launch, new context, new page, the two
  closes) and the callback are taken to return normally.
\<close>

datatype event =
    Progress int nat string
  | Launch
  | NewContext
  | NewPage
  | PageClose
  | Sleep nat
  | BrowserClose
  | ToCsv string

definition max_retries :: nat where "max_retries = 3"

text \<open>
  The retry loop \<open>for attempt in range(max_retries)\<close> (lines 99-140), over the attempts
  still to run. \<open>pages attempt\<close> is the page that \<open>context.new_page()\<close> returns for that
  attempt; \<open>page.close()\<close> is in the \<open>finally\<close>, so it also runs on \<open>break\<close>.
\<close>

fun retry_loop :: "(nat \<Rightarrow> page) \<Rightarrow> string \<Rightarrow> nat list \<Rightarrow> string \<Rightarrow> string \<times> event list" where
  "retry_loop pages url [] result = (result, [])"
| "retry_loop pages url (attempt # rest) result =
     (let (result', brk) = try_page (pages attempt) url;
          evs = [NewPage, PageClose]
      in if brk then (result', evs)
         else let evs' = evs @ (if attempt < max_retries - 1 then [Sleep 2] else []);
                  (r, evs'') = retry_loop pages url rest result'
              in (r, evs' @ evs''))"

section \<open>Tables\<close>

text \<open>
  A cell of the data frame is missing (\<open>NaN\<close>, for which \<open>pd.isna\<close> holds) or holds a
  value. A value is kept as the text \<open>str(url)\<close> of the row that \<open>df.iterrows()\<close>
  yields, which is what the loop reads: the text itself for a string, and for a number
  its rendering in that row. In a table of numeric columns only, the row has the common
  type of the columns, so the field \<open>1\<close> beside a floating-point column reads \<open>1.0\<close>.
  The column detection reads the first cell through \<open>df.iloc\<close>; the rendering of a
  number starts with \<open>http\<close> in neither form.
  A data frame is its columns in order, each a name and the values of the rows;
  \<open>read_csv\<close> gives at least one column, distinct names and columns of one length.
\<close>

datatype cell = NaN | Val string

definition isna :: "cell \<Rightarrow> bool" where
  "isna c = (c = NaN)"

fun str_cell :: "cell \<Rightarrow> string" where
  "str_cell NaN = ''nan''"
| "str_cell (Val s) = s"

type_synonym dataframe = "(string \<times> cell list) list"

definition columns :: "dataframe \<Rightarrow> string list" where
  "columns df = map fst df"

definition len :: "dataframe \<Rightarrow> nat" where
  "len df = (case df of [] \<Rightarrow> 0 | (c, vs) # _ \<Rightarrow> length vs)"

definition wf_df :: "dataframe \<Rightarrow> bool" where
  "wf_df df = (df \<noteq> [] \<and> distinct (columns df) \<and> list_all (\<lambda>(c, vs). length vs = len df) df)"

text \<open>\<open>set_column df name vals\<close> is \<open>df[name] = vals\<close> on distinct column names.\<close>

fun set_column :: "dataframe \<Rightarrow> string \<Rightarrow> cell list \<Rightarrow> dataframe" where
  "set_column [] name vals = [(name, vals)]"
| "set_column ((c, vs) # rest) name vals =
     (if c = name then (c, vals) # rest else (c, vs) # set_column rest name vals)"

definition get_column :: "dataframe \<Rightarrow> string \<Rightarrow> cell list" where
  "get_column df name = (case map_of df name of None \<Rightarrow> [] | Some vs \<Rightarrow> vs)"

text \<open>
  The index of the data frame holds one label per row. \<open>read_csv\<close> labels the rows
  0, 1, ... (\<open>range_index\<close>) when the rows have as many fields as the header; when they
  have one field more, the first field of each row becomes its label, an integer
  (\<open>IntLabel\<close>) or a text (\<open>StrLabel\<close>). Labels that are floating-point numbers are not
  represented.
\<close>

datatype label = IntLabel int | StrLabel string

definition range_index :: "nat \<Rightarrow> label list" where
  "range_index n = map (\<lambda>i. IntLabel (int i)) [0..<n]"

text \<open>
  \<open>df.iterrows()\<close> followed by \<open>row[url_col]\<close>: the label of each row and its URL
  cell, in the order of the rows.
\<close>

definition iterrows :: "label list \<Rightarrow> dataframe \<Rightarrow> string \<Rightarrow> (label \<times> cell) list" where
  "iterrows index df url_col = zip index (get_column df url_col)"

datatype error =
  FileNotFoundError string | Exception string | IndexError | ValueError | TypeError

definition quote :: string where "quote = [CHR 0x27]"

text \<open>
  Lines 58-71. A column name that matches contains \<open>url\<close> or \<open>link\<close>, so it is not empty
  and \<open>not url_col\<close> holds only when no name matched. \<open>df.iloc[0, 0]\<close> raises
  \<open>IndexError\<close> on a table without rows.
\<close>

definition detect_url_col :: "dataframe \<Rightarrow> error + string" where
  "detect_url_col df =
     (case find (\<lambda>col. contains (lower col) ''url'' \<or> contains (lower col) ''link'') (columns df) of
        Some col \<Rightarrow> Inr col
      | None \<Rightarrow>
          (case df of
             [] \<Rightarrow> Inl IndexError
           | (c, vs) # _ \<Rightarrow>
               (case vs of
                  [] \<Rightarrow> Inl IndexError
                | v # _ \<Rightarrow>
                    if startswith (str_cell v) ''http'' then Inr c
                    else Inl (Exception (''Could not detect a URL column. Please name it ''
                                         @ quote @ ''url'' @ quote @ '' or similar.'')))))"

section \<open>One row\<close>

definition invalid_url :: "cell \<Rightarrow> bool" where
  "invalid_url url = (isna url \<or> \<not> startswith (str_cell url) ''http'')"

definition row_message :: "int \<Rightarrow> nat \<Rightarrow> cell \<Rightarrow> string" where
  "row_message index total_rows url =
     ''Processing '' @ str_int (index + 1) @ ''/'' @ str_nat total_rows @ '': ''
       @ take 50 (str_cell url) @ ''...''"

text \<open>
  The body of the loop over the rows (lines 87-145) for a row whose label is the integer
  \<open>index\<close>: the new \<open>extracted_counts\<close> and the events. \<open>cb\<close> says whether a progress
  callback was given; \<open>pages\<close> gives the pages of this row's attempts. A valid URL passed
  \<open>str(url).startswith("http")\<close>, so it is \<open>str_cell url\<close>.
\<close>

definition row_body ::
  "bool \<Rightarrow> (nat \<Rightarrow> page) \<Rightarrow> nat \<Rightarrow> int \<Rightarrow> cell \<Rightarrow> string list \<Rightarrow> string list \<times> event list" where
  "row_body cb pages total_rows index url extracted_counts =
     (let ev0 = (if cb then [Progress (index + 1) total_rows (row_message index total_rows url)] else [])
      in if invalid_url url then (extracted_counts @ [''Invalid URL''], ev0)
         else let (result, evs) =
                    retry_loop pages (str_cell url) [0..<max_retries] ''Error: Element not found''
              in (extracted_counts @ [result], ev0 @ evs @ [Sleep 1]))"

text \<open>
  Line 89 computes \<open>index + 1\<close>, and only when a callback is given. On a label that is
  not a number this raises \<open>TypeError\<close>, outside any handler. \<open>row_body\<close> reads its
  \<open>index\<close> only when a callback is given, and then the label is an integer.
\<close>

fun is_number :: "label \<Rightarrow> bool" where
  "is_number (IntLabel i) = True"
| "is_number (StrLabel s) = False"

fun label_int :: "label \<Rightarrow> int" where
  "label_int (IntLabel i) = i"
| "label_int (StrLabel s) = 0"

text \<open>
  \<open>for index, row in df.iterrows()\<close>: the events, and the exception that ends the
  loop or the final \<open>extracted_counts\<close>. \<open>new_page k attempt\<close> is the page opened for
  that attempt of the \<open>k\<close>-th row still to come.
\<close>

fun iterrows_loop ::
  "bool \<Rightarrow> (nat \<Rightarrow> nat \<Rightarrow> page) \<Rightarrow> nat \<Rightarrow> (label \<times> cell) list \<Rightarrow> string list
     \<Rightarrow> event list \<times> (error + string list)" where
  "iterrows_loop cb new_page total_rows [] extracted_counts = ([], Inr extracted_counts)"
| "iterrows_loop cb new_page total_rows ((index, url) # rest) extracted_counts =
     (if cb \<and> \<not> is_number index then ([], Inl TypeError)
      else let (extracted_counts', evs) =
                  row_body cb (new_page 0) total_rows (label_int index) url extracted_counts;
               (evs', r) = iterrows_loop cb (\<lambda>k. new_page (Suc k)) total_rows rest extracted_counts'
           in (evs @ evs', r))"

section \<open>\<open>process_csv\<close>\<close>

text \<open>
  The environment of a run: which paths exist, what \<open>pd.read_csv\<close> returns (the index
  and the columns of the data frame) or raises, the pages the browser opens (\<open>new_page k
  attempt\<close> for that attempt of the \<open>k\<close>-th row of the table), and whether \<open>df.to_csv\<close>
  raises.
\<close>

record env =
  path_exists :: "string \<Rightarrow> bool"
  read_csv :: "string \<Rightarrow> exn + label list \<times> dataframe"
  new_page :: "nat \<Rightarrow> nat \<Rightarrow> page"
  to_csv :: "string \<Rightarrow> dataframe \<Rightarrow> exn option"

definition found_message :: "nat \<Rightarrow> string \<Rightarrow> string" where
  "found_message n url_col =
     ''Found '' @ str_nat n @ '' rows. Using column '' @ quote @ url_col @ quote @ ''...''"

definition done_message :: "string \<Rightarrow> string" where
  "done_message output_path = ''Done! Saved to '' @ output_path"

text \<open>
  The result is the events of the run and either the exception raised or the table
  written to \<open>output_path\<close>. An exception that ends the loop over the rows leaves
  \<open>process_csv\<close> before \<open>browser.close()\<close>, which is not in a \<open>finally\<close>; the block
  \<open>with sync_playwright()\<close> then stops Playwright, which is not among the events.
  Assigning a list of the wrong length to a column raises \<open>ValueError\<close>.
\<close>

definition process_csv :: "env \<Rightarrow> string \<Rightarrow> string \<Rightarrow> bool \<Rightarrow> event list \<times> (error + dataframe)" where
  "process_csv env input_path output_path cb =
     (if \<not> path_exists env input_path
      then ([], Inl (FileNotFoundError (''Input file '' @ quote @ input_path @ quote @ '' not found.'')))
      else case read_csv env input_path of
        Inl e \<Rightarrow> ([], Inl (Exception (''Error reading CSV: '' @ e)))
      | Inr (index, df0) \<Rightarrow>
          (case detect_url_col df0 of
             Inl err \<Rightarrow> ([], Inl err)
           | Inr url_col \<Rightarrow>
               (let ev0 = (if cb then [Progress 0 (len df0) (found_message (len df0) url_col)] else []);
                    df = (if ''number of ads'' \<notin> set (columns df0)
                          then set_column df0 ''number of ads'' (replicate (len df0) (Val []))
                          else df0);
                    (evs, r) = iterrows_loop cb (new_page env) (len df) (iterrows index df url_col) [];
                    tr = ev0 @ [Launch, NewContext] @ evs
                in case r of
                     Inl err \<Rightarrow> (tr, Inl err)
                   | Inr extracted_counts \<Rightarrow>
                       if length extracted_counts \<noteq> len df then (tr @ [BrowserClose], Inl ValueError)
                       else let df' = set_column df ''number of ads'' (map Val extracted_counts)
                            in (case to_csv env output_path df' of
                                  Some e \<Rightarrow>
                                    (tr @ [BrowserClose, ToCsv output_path],
                                     Inl (Exception (''Error writing output CSV: '' @ e)))
                                | None \<Rightarrow>
                                    (tr @ [BrowserClose, ToCsv output_path]
                                        @ (if cb then [Progress (int (len df')) (len df')
                                                         (done_message output_path)]
                                           else []),
                                     Inr df')))))"

section \<open>Example pages\<close>

text \<open>
  A page that loads, never shows the count element, has no "No ads found" text and is
  titled as the transparency centre.
\<close>

definition pg_title_only :: page where
  "pg_title_only =
     \<lparr>goto = (\<lambda>url timeout. None),
      wait_for = (\<lambda>timeout. Some ''Timeout exceeded.''),
      inner_text = Inl ''Timeout exceeded.'',
      no_ads_found = Inr 0,
      title = Inr ''Google Ads Transparency Center''\<rparr>"

text \<open>A page whose count element is visible and reads "0 ads" between blanks.\<close>

definition pg_zero_ads :: page where
  "pg_zero_ads =
     \<lparr>goto = (\<lambda>url timeout. None),
      wait_for = (\<lambda>timeout. None),
      inner_text = Inr '' 0 ads '',
      no_ads_found = Inr 0,
      title = Inr ''Google Ads Transparency Center''\<rparr>"

section \<open>Example tables and environments\<close>

text \<open>A page on which navigation fails.\<close>

definition pg_down :: page where
  "pg_down =
     \<lparr>goto = (\<lambda>url timeout. Some ''net::ERR_NAME_NOT_RESOLVED''),
      wait_for = (\<lambda>timeout. Some ''Timeout exceeded.''),
      inner_text = Inl ''Timeout exceeded.'',
      no_ads_found = Inr 0,
      title = Inr []\<rparr>"

text \<open>A table of two rows, the first with a URL and the second without.\<close>

definition df_two :: dataframe where
  "df_two = [(''url'', [Val ''http://a'', NaN])]"

text \<open>
  The same table read from \<open>in.csv\<close> with the labels 0 and 1; every page shows "0 ads"
  and the table can be written.
\<close>

definition env_two :: env where
  "env_two =
     \<lparr>path_exists = (\<lambda>path. True),
      read_csv = (\<lambda>path. Inr (range_index 2, df_two)),
      new_page = (\<lambda>index attempt. pg_zero_ads),
      to_csv = (\<lambda>path df. None)\<rparr>"

text \<open>
  A table of one row that already has a column "number of ads", in front of the URL
  column, read from \<open>in.csv\<close>.
\<close>

definition df_counted :: dataframe where
  "df_counted = [(''number of ads'', [Val ''7'']), (''link'', [Val ''http://a''])]"

definition env_counted :: env where
  "env_counted =
     \<lparr>path_exists = (\<lambda>path. True),
      read_csv = (\<lambda>path. Inr (range_index 1, df_counted)),
      new_page = (\<lambda>index attempt. pg_zero_ads),
      to_csv = (\<lambda>path df. None)\<rparr>"

text \<open>
  The file \<open>url\<close>, \<open>http://a,\<close>, \<open>http://b,\<close> (three lines, the rows ending in a
  comma): the rows have one field more than the header, so their first fields are the
  labels and the column \<open>url\<close> holds the missing second fields.
\<close>

definition df_trailing :: dataframe where
  "df_trailing = [(''url'', [NaN, NaN])]"

definition env_trailing :: env where
  "env_trailing =
     \<lparr>path_exists = (\<lambda>path. True),
      read_csv = (\<lambda>path. Inr ([StrLabel ''http://a'', StrLabel ''http://b''], df_trailing)),
      new_page = (\<lambda>index attempt. pg_zero_ads),
      to_csv = (\<lambda>path df. None)\<rparr>"

text \<open>
  The file \<open>url\<close>, \<open>5,http://a\<close> (two lines): the row has one field more than the header,
  so its first field is its label, the integer 5.
\<close>

definition df_labelled :: dataframe where
  "df_labelled = [(''url'', [Val ''http://a''])]"

definition env_labelled :: env where
  "env_labelled =
     \<lparr>path_exists = (\<lambda>path. True),
      read_csv = (\<lambda>path. Inr ([IntLabel 5], df_labelled)),
      new_page = (\<lambda>index attempt. pg_zero_ads),
      to_csv = (\<lambda>path df. None)\<rparr>"

section \<open>Notions used to state the properties\<close>

text \<open>
  The value a row appends to \<open>extracted_counts\<close> and the events it emits, read off
  \<open>row_body\<close>.
\<close>

definition row_outcome :: "(nat \<Rightarrow> page) \<Rightarrow> cell \<Rightarrow> string" where
  "row_outcome pages url = last (fst (row_body False pages 0 0 url []))"

definition row_events :: "bool \<Rightarrow> (nat \<Rightarrow> page) \<Rightarrow> nat \<Rightarrow> int \<Rightarrow> cell \<Rightarrow> event list" where
  "row_events cb pages total_rows index url = snd (row_body cb pages total_rows index url [])"

text \<open>
  The number of rows the loop goes through: all of them, or those before the first row at
  which line 89 raises.
\<close>

definition no_type_error :: "bool \<Rightarrow> label \<Rightarrow> bool" where
  "no_type_error cb index = (\<not> cb \<or> is_number index)"

definition rows_done :: "bool \<Rightarrow> label list \<Rightarrow> nat" where
  "rows_done cb index = length (takeWhile (no_type_error cb) index)"

text \<open>The events of one row's retry loop.\<close>

definition retry_events :: "(nat \<Rightarrow> page) \<Rightarrow> cell \<Rightarrow> event list" where
  "retry_events pages url =
     snd (retry_loop pages (str_cell url) [0..<max_retries] ''Error: Element not found'')"

text \<open>A run has written its table when it ends without an exception.\<close>

definition written :: "event list \<times> (error + dataframe) \<Rightarrow> bool" where
  "written run = (case snd run of Inl err \<Rightarrow> False | Inr out \<Rightarrow> True)"

fun is_progress :: "event \<Rightarrow> bool" where
  "is_progress (Progress current total_rows message) = True"
| "is_progress e = False"





section \<open>Classification of one page\<close>

lemma strip_zero_ads: "strip '' 0 ads '' = ''0 ads''"
  by (simp add: strip_def isspace_def)

text \<open>
  C4, as stated, fails: on a page that loads, shows neither the count element nor the
  "No ads found" text, and whose title contains "Google Ads", \<open>scrape_ads_count\<close> returns
  the string "no ads", not an error.
\<close>

theorem title_only_single_shot_counterexample:
  "goto pg_title_only ''https://adstransparency.google.com/a'' single_goto_timeout = None
   \<and> visible_text pg_title_only single_wait_timeout = None
   \<and> no_ads_found pg_title_only = Inr 0
   \<and> title pg_title_only = Inr ''Google Ads Transparency Center''
   \<and> contains ''Google Ads Transparency Center'' ''Google Ads''
   \<and> scrape_ads_count pg_title_only ''https://adstransparency.google.com/a'' = ''no ads''
   \<and> \<not> startswith (scrape_ads_count pg_title_only ''https://adstransparency.google.com/a'') ''Error''"
  by (simp add: scrape_ads_count_def pg_title_only_def visible_text_def)

text \<open>
  C4, amended: whenever navigation succeeds, the count element does not become visible,
  no "No ads found" text is present and the title contains "Google Ads", the single-shot
  extractor \<open>scrape_ads_count\<close> returns "no ads".
\<close>

theorem title_only_single_shot:
  assumes "goto pg url single_goto_timeout = None"
    and "visible_text pg single_wait_timeout = None"
    and "no_ads_found pg = Inr 0"
    and "title pg = Inr t"
    and "contains t ''Google Ads''"
  shows "scrape_ads_count pg url = ''no ads''"
  using assms by (simp add: scrape_ads_count_def)

theorem title_only_single_shot_witness:
  "goto pg_title_only ''http://a'' single_goto_timeout = None
   \<and> visible_text pg_title_only single_wait_timeout = None
   \<and> no_ads_found pg_title_only = Inr 0
   \<and> title pg_title_only = Inr ''Google Ads Transparency Center''
   \<and> contains ''Google Ads Transparency Center'' ''Google Ads''
   \<and> scrape_ads_count pg_title_only ''http://a'' = ''no ads''"
proof -
  have g: "goto pg_title_only ''http://a'' single_goto_timeout = None"
    by (simp add: pg_title_only_def)
  have v: "visible_text pg_title_only single_wait_timeout = None"
    by (simp add: pg_title_only_def visible_text_def)
  have n: "no_ads_found pg_title_only = Inr 0"
    by (simp add: pg_title_only_def)
  have t: "title pg_title_only = Inr ''Google Ads Transparency Center''"
    by (simp add: pg_title_only_def)
  have c: "contains ''Google Ads Transparency Center'' ''Google Ads''"
    by simp
  from title_only_single_shot [OF g v n t c] g v n t c show ?thesis by simp
qed

text \<open>
  C7: when navigation succeeds, the count element becomes visible and its text is read,
  the result is "no ads" if the stripped text is "0 ads" and the stripped text itself
  otherwise, in \<open>scrape_ads_count\<close> and in one attempt of the batch (which then leaves the
  retry loop). A count is represented by its text.
\<close>

theorem visible_element_classification:
  assumes "inner_text pg = Inr text"
  shows "(goto pg url single_goto_timeout = None \<longrightarrow> wait_for pg single_wait_timeout = None \<longrightarrow>
            scrape_ads_count pg url = (if strip text = ''0 ads'' then ''no ads'' else strip text))
       \<and> (goto pg url batch_goto_timeout = None \<longrightarrow> wait_for pg batch_wait_timeout = None \<longrightarrow>
            try_page pg url = (if strip text = ''0 ads'' then ''no ads'' else strip text, True))"
  using assms by (simp add: scrape_ads_count_def try_page_def visible_text_def)

theorem visible_element_classification_witness:
  "inner_text pg_zero_ads = Inr '' 0 ads ''
   \<and> goto pg_zero_ads ''http://a'' single_goto_timeout = None
   \<and> wait_for pg_zero_ads single_wait_timeout = None
   \<and> goto pg_zero_ads ''http://a'' batch_goto_timeout = None
   \<and> wait_for pg_zero_ads batch_wait_timeout = None
   \<and> scrape_ads_count pg_zero_ads ''http://a'' = ''no ads''
   \<and> try_page pg_zero_ads ''http://a'' = (''no ads'', True)"
proof -
  have i: "inner_text pg_zero_ads = Inr '' 0 ads ''"
    by (simp add: pg_zero_ads_def)
  have g: "goto pg_zero_ads ''http://a'' single_goto_timeout = None"
    "wait_for pg_zero_ads single_wait_timeout = None"
    "goto pg_zero_ads ''http://a'' batch_goto_timeout = None"
    "wait_for pg_zero_ads batch_wait_timeout = None"
    by (simp_all add: pg_zero_ads_def)
  from visible_element_classification [OF i, of "''http://a''"] i g strip_zero_ads
  show ?thesis by simp
qed

text \<open>
  C5, as stated, fails: on the page above, which answers alike at both pairs of timeouts,
  one attempt of the batch gives "Error: Element not found (Timeout)" where
  \<open>scrape_ads_count\<close> gives "no ads".
\<close>

theorem single_shot_vs_batch_counterexample:
  "goto pg_title_only ''http://a'' batch_goto_timeout = goto pg_title_only ''http://a'' single_goto_timeout
   \<and> wait_for pg_title_only batch_wait_timeout = wait_for pg_title_only single_wait_timeout
   \<and> scrape_ads_count pg_title_only ''http://a'' = ''no ads''
   \<and> fst (try_page pg_title_only ''http://a'') = ''Error: Element not found (Timeout)''
   \<and> fst (try_page pg_title_only ''http://a'') \<noteq> scrape_ads_count pg_title_only ''http://a''"
  by (simp add: scrape_ads_count_def try_page_def pg_title_only_def visible_text_def)

text \<open>
  C5, amended: on a page that answers alike at both pairs of timeouts, one attempt of the
  batch and \<open>scrape_ads_count\<close> return the same string exactly when navigation succeeds
  and either the count element's text is read, or the "No ads found" query raises or
  finds a match, or the title query raises. They differ when navigation fails and when
  both markers are absent and the title is read. The batch timeouts are the larger ones.
\<close>

theorem single_shot_vs_batch:
  assumes "goto pg url batch_goto_timeout = goto pg url single_goto_timeout"
    and "visible_text pg batch_wait_timeout = visible_text pg single_wait_timeout"
  shows "((fst (try_page pg url) = scrape_ads_count pg url) =
           (goto pg url single_goto_timeout = None
            \<and> (case visible_text pg single_wait_timeout of
                 Some text \<Rightarrow> True
               | None \<Rightarrow>
                  (case no_ads_found pg of
                     Inl e \<Rightarrow> True
                   | Inr n \<Rightarrow> 0 < n \<or> (case title pg of Inl e \<Rightarrow> True | Inr t \<Rightarrow> False)))))
       \<and> single_goto_timeout < batch_goto_timeout
       \<and> single_wait_timeout < batch_wait_timeout"
  using assms
  by (auto simp add: scrape_ads_count_def try_page_def
        single_goto_timeout_def batch_goto_timeout_def single_wait_timeout_def batch_wait_timeout_def
      split: option.splits sum.splits)

theorem single_shot_vs_batch_witness:
  "goto pg_zero_ads ''http://a'' batch_goto_timeout = goto pg_zero_ads ''http://a'' single_goto_timeout
   \<and> visible_text pg_zero_ads batch_wait_timeout = visible_text pg_zero_ads single_wait_timeout
   \<and> fst (try_page pg_zero_ads ''http://a'') = scrape_ads_count pg_zero_ads ''http://a''
   \<and> single_goto_timeout < batch_goto_timeout
   \<and> single_wait_timeout < batch_wait_timeout"
proof -
  have g: "goto pg_zero_ads ''http://a'' batch_goto_timeout = goto pg_zero_ads ''http://a'' single_goto_timeout"
    by (simp add: pg_zero_ads_def)
  have v: "visible_text pg_zero_ads batch_wait_timeout = visible_text pg_zero_ads single_wait_timeout"
    by (simp add: pg_zero_ads_def visible_text_def)
  have s: "goto pg_zero_ads ''http://a'' single_goto_timeout = None"
    "visible_text pg_zero_ads single_wait_timeout = Some ''0 ads''"
    by (simp_all add: pg_zero_ads_def visible_text_def strip_zero_ads)
  from single_shot_vs_batch [OF g v] g v s show ?thesis by simp
qed

section \<open>The retry loop, the rows and the run, in closed form\<close>

lemma range_max_retries: "[0..<max_retries] = [0, 1, 2]"
  by (simp add: max_retries_def upt_rec)

lemma retry_loop_step:
  "retry_loop pages url (a # rest) r =
     (if snd (try_page (pages a) url) then (fst (try_page (pages a) url), [NewPage, PageClose])
      else (fst (retry_loop pages url rest (fst (try_page (pages a) url))),
            [NewPage, PageClose] @ (if a < max_retries - 1 then [Sleep 2] else [])
              @ snd (retry_loop pages url rest (fst (try_page (pages a) url)))))"
  by (simp add: Let_def split: prod.splits)

lemma retry_loop_unfold:
  "retry_loop pages url [0..<max_retries] r =
     (if snd (try_page (pages 0) url)
      then (fst (try_page (pages 0) url), [NewPage, PageClose])
      else if snd (try_page (pages 1) url)
      then (fst (try_page (pages 1) url), [NewPage, PageClose, Sleep 2, NewPage, PageClose])
      else (fst (try_page (pages 2) url),
            [NewPage, PageClose, Sleep 2, NewPage, PageClose, Sleep 2, NewPage, PageClose]))"
  by (simp only: range_max_retries retry_loop_step retry_loop.simps(1)) (simp add: max_retries_def)

lemma try_page_break:
  "snd (try_page pg url) =
     (goto pg url batch_goto_timeout = None
      \<and> (case visible_text pg batch_wait_timeout of
           Some text \<Rightarrow> True
         | None \<Rightarrow> (case no_ads_found pg of Inl e \<Rightarrow> False | Inr n \<Rightarrow> 0 < n)))"
  by (simp add: try_page_def split: option.splits sum.splits)

lemma try_page_error:
  "\<not> snd (try_page pg url) \<Longrightarrow> startswith (fst (try_page pg url)) ''Error: ''"
  by (simp add: try_page_def split: option.splits sum.splits if_splits)

lemma try_page_pg_down: "try_page pg_down url = (''Error: net::ERR_NAME_NOT_RESOLVED'', False)"
  by (simp add: try_page_def pg_down_def)

lemma valid_http_a: "\<not> invalid_url (Val ''http://a'')"
  by (simp add: invalid_url_def isna_def)

lemma row_body_eq:
  "row_body cb pages total_rows index url ex =
     (ex @ [row_outcome pages url], row_events cb pages total_rows index url)"
  by (simp add: row_body_def row_outcome_def row_events_def Let_def split: prod.splits)

lemma row_outcome_eq:
  "row_outcome pages url =
     (if invalid_url url then ''Invalid URL''
      else fst (retry_loop pages (str_cell url) [0..<max_retries] ''Error: Element not found''))"
  by (simp add: row_body_def row_outcome_def Let_def split: prod.splits)

lemma row_events_eq:
  "row_events cb pages total_rows index url =
     (if cb then [Progress (index + 1) total_rows (row_message index total_rows url)] else [])
     @ (if invalid_url url then [] else retry_events pages url @ [Sleep 1])"
  by (simp add: row_body_def row_events_def retry_events_def Let_def split: prod.splits)

lemma row_body_index:
  "row_body False pages total_rows index url ex = row_body False pages total_rows index' url ex"
  by (simp add: row_body_def)

lemma iterrows_loop_eq:
  "iterrows_loop cb np total_rows rows ex =
     (let m = length (takeWhile (\<lambda>(index, url). no_type_error cb index) rows)
      in (concat (map (\<lambda>k. row_events cb (np k) total_rows (label_int (fst (rows ! k))) (snd (rows ! k)))
                   [0..<m]),
          if m = length rows
          then Inr (ex @ map (\<lambda>k. row_outcome (np k) (snd (rows ! k))) [0..<m])
          else Inl TypeError))"
proof (induction rows arbitrary: np ex)
  case Nil
  show ?case by simp
next
  case (Cons row rows)
  obtain index url where row: "row = (index, url)" by (cases row)
  show ?case
  proof (cases "no_type_error cb index")
    case False
    moreover from False have "cb \<and> \<not> is_number index" by (simp add: no_type_error_def)
    ultimately show ?thesis by (simp add: row)
  next
    case True
    then have n: "(cb \<and> \<not> is_number index) = False" by (simp add: no_type_error_def)
    have step: "iterrows_loop cb np total_rows (row # rows) ex =
        (row_events cb (np 0) total_rows (label_int index) url
           @ fst (iterrows_loop cb (\<lambda>k. np (Suc k)) total_rows rows (ex @ [row_outcome (np 0) url])),
         snd (iterrows_loop cb (\<lambda>k. np (Suc k)) total_rows rows (ex @ [row_outcome (np 0) url])))"
      unfolding row iterrows_loop.simps n if_False row_body_eq Let_def
      by (simp add: split_def)
    have tw: "takeWhile (\<lambda>(index, url). no_type_error cb index) (row # rows)
        = row # takeWhile (\<lambda>(index, url). no_type_error cb index) rows"
      using True by (simp add: row)
    show ?thesis
      unfolding step Cons.IH tw Let_def
      by (simp add: row map_upt_Suc del: upt_Suc)
  qed
qed

lemma takeWhile_zip_fst:
  "length xs = length ys \<Longrightarrow>
     length (takeWhile (\<lambda>(x, y). P x) (zip xs ys)) = length (takeWhile P xs)"
  by (induction xs ys rule: list_induct2) simp_all

lemma length_takeWhile_all: "(length (takeWhile P xs) = length xs) = (\<forall>x \<in> set xs. P x)"
  by (induction xs) auto

lemma rows_done_le: "rows_done cb index \<le> length index"
  by (simp add: rows_done_def length_takeWhile_le)

lemma rows_done_eq:
  "(rows_done cb index = length index) = (\<not> cb \<or> list_all is_number index)"
  by (auto simp add: rows_done_def length_takeWhile_all no_type_error_def list_all_iff)

lemma rows_done_all:
  "\<not> cb \<or> list_all is_number index \<Longrightarrow> rows_done cb index = length index"
  by (simp only: rows_done_eq)

lemma rows_done_less:
  "(rows_done cb index < length index) = (cb \<and> \<not> list_all is_number index)"
  using rows_done_le [of cb index] rows_done_eq [of cb index] by auto

lemma list_all_range_index: "list_all is_number (range_index n)"
  by (simp add: range_index_def list_all_iff)

lemma length_range_index: "length (range_index n) = n"
  by (simp add: range_index_def)

lemma rows_done_range_index: "rows_done cb (range_index n) = n"
  by (simp add: rows_done_all list_all_range_index length_range_index)

lemma find_in_set: "find P xs = Some x \<Longrightarrow> x \<in> set xs"
  by (induction xs) (auto split: if_splits)

lemma detect_url_col_in_columns:
  "detect_url_col df = Inr c \<Longrightarrow> c \<in> set (columns df)"
  by (auto simp add: detect_url_col_def columns_def split: option.splits list.splits if_splits
      dest: find_in_set)

lemma columns_set_column:
  "columns (set_column df name vals) =
     (if name \<in> set (columns df) then columns df else columns df @ [name])"
  by (induction df name vals rule: set_column.induct) (auto simp add: columns_def)

lemma map_of_set_column:
  "map_of (set_column df name vals) c = (if c = name then Some vals else map_of df c)"
  by (induction df name vals rule: set_column.induct) auto

lemma get_column_set_column:
  "get_column (set_column df name vals) c = (if c = name then vals else get_column df c)"
  by (simp add: get_column_def map_of_set_column)

lemma set_column_twice:
  "set_column (set_column df name vals) name vals' = set_column df name vals'"
  by (induction df name vals rule: set_column.induct) auto

lemma len_set_column:
  "df \<noteq> [] \<Longrightarrow> name \<notin> set (columns df) \<or> length vals = len df \<Longrightarrow>
     len (set_column df name vals) = len df"
  by (cases df) (auto simp add: len_def columns_def)

lemma length_get_column:
  "wf_df df \<Longrightarrow> c \<in> set (columns df) \<Longrightarrow> length (get_column df c) = len df"
proof -
  assume wf: "wf_df df" and c: "c \<in> set (columns df)"
  from c obtain vs where vs: "(c, vs) \<in> set df"
    by (auto simp add: columns_def)
  with wf have "map_of df c = Some vs"
    by (simp add: wf_df_def columns_def)
  moreover from wf vs have "length vs = len df"
    by (auto simp add: wf_df_def list_all_iff)
  ultimately show ?thesis by (simp add: get_column_def)
qed

text \<open>
  The events and the result of a run that found its URL column, row by row: the rows
  gone through, the exception of line 89 if the loop stopped early, and otherwise the
  table it tries to write.
\<close>

lemma process_csv_rows:
  assumes ex: "path_exists env ip"
    and rd: "read_csv env ip = Inr (index, df)"
    and col: "detect_url_col df = Inr url_col"
    and wf: "wf_df df"
    and li: "length index = len df"
  shows "process_csv env ip op cb =
     (let n = len df;
          m = rows_done cb index;
          url = (\<lambda>k. get_column df url_col ! k);
          out = set_column df ''number of ads''
                  (map (\<lambda>k. Val (row_outcome (new_page env k) (url k))) [0..<n]);
          tr = (if cb then [Progress 0 n (found_message n url_col)] else [])
               @ [Launch, NewContext]
               @ concat (map (\<lambda>k. row_events cb (new_page env k) n (label_int (index ! k)) (url k))
                           [0..<m])
      in if m < n then (tr, Inl TypeError)
         else case to_csv env op out of
           Some e \<Rightarrow> (tr @ [BrowserClose, ToCsv op], Inl (Exception (''Error writing output CSV: '' @ e)))
         | None \<Rightarrow> (tr @ [BrowserClose, ToCsv op]
                        @ (if cb then [Progress (int n) n (done_message op)] else []),
                     Inr out))"
proof -
  define df1 where "df1 = (if ''number of ads'' \<notin> set (columns df)
                          then set_column df ''number of ads'' (replicate (len df) (Val []))
                          else df)"
  define urls where "urls = get_column df url_col"
  define rows where "rows = zip index urls"
  define m where "m = rows_done cb index"
  define vals where "vals = map (\<lambda>k. row_outcome (new_page env k) (urls ! k)) [0..<len df]"
  define evs where
    "evs = concat (map (\<lambda>k. row_events cb (new_page env k) (len df) (label_int (index ! k)) (urls ! k))
                     [0..<m])"
  have ne: "df \<noteq> []" using wf by (simp add: wf_df_def)
  have c: "url_col \<in> set (columns df)" using col by (rule detect_url_col_in_columns)
  have len1: "len df1 = len df"
    using ne by (simp add: df1_def len_set_column)
  have "get_column df1 url_col = urls"
    using c by (auto simp add: df1_def urls_def get_column_set_column)
  then have rows1: "iterrows index df1 url_col = rows"
    by (simp add: iterrows_def rows_def)
  have lu: "length urls = len df"
    using wf c by (simp add: urls_def length_get_column)
  have lr: "length rows = len df"
    by (simp add: rows_def lu li)
  have mle: "m \<le> len df"
    using rows_done_le [of cb index] by (simp add: m_def li)
  have tw: "length (takeWhile (\<lambda>(index, url). no_type_error cb index) rows) = m"
    unfolding rows_def m_def rows_done_def
    by (rule takeWhile_zip_fst) (simp add: li lu)
  have nth: "rows ! k = (index ! k, urls ! k)" if "k < len df" for k
    using that by (simp add: rows_def li lu)
  have e1: "concat (map (\<lambda>k. row_events cb (new_page env k) (len df) (label_int (fst (rows ! k)))
                            (snd (rows ! k))) [0..<m]) = evs"
    unfolding evs_def using mle
    by (intro arg_cong [where f = concat] map_cong) (simp_all add: nth)
  have v1: "map (\<lambda>k. row_outcome (new_page env k) (snd (rows ! k))) [0..<len df] = vals"
    unfolding vals_def by (intro map_cong) (simp_all add: nth)
  have loop: "iterrows_loop cb (new_page env) (len df1) (iterrows index df1 url_col) [] =
      (evs, if m = len df then Inr vals else Inl TypeError)"
    by (simp add: iterrows_loop_eq rows1 len1 tw lr Let_def e1 v1)
  have lv: "length vals = len df" by (simp add: vals_def)
  have out1: "set_column df1 ''number of ads'' (map Val vals) = set_column df ''number of ads'' (map Val vals)"
    by (simp add: df1_def set_column_twice)
  have lout: "len (set_column df ''number of ads'' (map Val vals)) = len df"
    using ne lv by (simp add: len_set_column)
  have mv: "map Val vals = map (\<lambda>k. Val (row_outcome (new_page env k) (get_column df url_col ! k))) [0..<len df]"
    by (simp add: vals_def urls_def)
  have run: "process_csv env ip op cb =
     (let tr = (if cb then [Progress 0 (len df) (found_message (len df) url_col)] else [])
               @ [Launch, NewContext] @ evs
      in if m < len df then (tr, Inl TypeError)
         else case to_csv env op (set_column df ''number of ads'' (map Val vals)) of
           Some e \<Rightarrow> (tr @ [BrowserClose, ToCsv op], Inl (Exception (''Error writing output CSV: '' @ e)))
         | None \<Rightarrow> (tr @ [BrowserClose, ToCsv op]
                        @ (if cb then [Progress (int (len df)) (len df) (done_message op)] else []),
                     Inr (set_column df ''number of ads'' (map Val vals))))"
  proof (cases "m = len df")
    case True
    then show ?thesis
      unfolding process_csv_def
      using ex rd col loop lv len1 out1 lout
      by (simp add: Let_def df1_def [symmetric] del: iterrows_loop.simps split: option.splits)
  next
    case False
    with mle have "m < len df" by simp
    with False show ?thesis
      unfolding process_csv_def
      using ex rd col loop
      by (simp add: Let_def df1_def [symmetric] del: iterrows_loop.simps)
  qed
  from run show ?thesis
    unfolding Let_def evs_def m_def mv urls_def .
qed

lemma set_retry_events: "set (retry_events pages url) \<subseteq> {NewPage, PageClose, Sleep 2}"
  by (auto simp add: retry_events_def retry_loop_unfold)

lemma example_env_two:
  "path_exists env_two ''in.csv''"
  "read_csv env_two ''in.csv'' = Inr (range_index 2, df_two)"
  "detect_url_col df_two = Inr ''url''"
  "wf_df df_two"
  "length (range_index 2) = len df_two"
  "len df_two = 2"
  "get_column df_two ''url'' = [Val ''http://a'', NaN]"
  "to_csv env_two path df = None"
  "new_page env_two k = (\<lambda>a. pg_zero_ads)"
  by (simp_all add: env_two_def df_two_def detect_url_col_def columns_def lower_def lower_char_def
        wf_df_def len_def get_column_def length_range_index)

lemma example_env_trailing:
  "path_exists env_trailing ''in.csv''"
  "read_csv env_trailing ''in.csv'' = Inr ([StrLabel ''http://a'', StrLabel ''http://b''], df_trailing)"
  "detect_url_col df_trailing = Inr ''url''"
  "wf_df df_trailing"
  "length [StrLabel ''http://a'', StrLabel ''http://b''] = len df_trailing"
  "len df_trailing = 2"
  "rows_done True [StrLabel ''http://a'', StrLabel ''http://b''] = 0"
  "rows_done False [StrLabel ''http://a'', StrLabel ''http://b''] = 2"
  by (simp_all add: env_trailing_def df_trailing_def detect_url_col_def columns_def lower_def
        lower_char_def wf_df_def len_def rows_done_def no_type_error_def)

lemma try_page_pg_zero_ads: "try_page pg_zero_ads url = (''no ads'', True)"
  by (simp add: try_page_def pg_zero_ads_def visible_text_def strip_zero_ads)

lemma invalid_NaN: "invalid_url NaN"
  by (simp add: invalid_url_def isna_def)

lemma upt_2: "[0..<2] = [0, Suc 0]"
  by (simp add: upt_rec)

lemma count_retry_events_sleep1: "count_list (retry_events pages url) (Sleep 1) = 0"
proof -
  have "Sleep 1 \<notin> {NewPage, PageClose, Sleep 2}" by simp
  with set_retry_events [of pages url] have "Sleep 1 \<notin> set (retry_events pages url)" by blast
  then show ?thesis by (rule count_notin)
qed

lemma count_row_events_sleep1:
  "count_list (row_events cb pages total_rows index url) (Sleep 1) = (if invalid_url url then 0 else 1)"
  by (simp add: row_events_eq count_retry_events_sleep1 del: One_nat_def)

lemma count_list_concat_map:
  "count_list (concat (map f xs)) a = sum_list (map (\<lambda>x. count_list (f x) a) xs)"
  by (induction xs) simp_all

lemma sum_list_indicator:
  "sum_list (map (\<lambda>x. if P x then 0 else (1::nat)) xs) = length (filter (\<lambda>x. \<not> P x) xs)"
  by (induction xs) simp_all

lemma set_column_present:
  "distinct (columns df) \<Longrightarrow> name \<in> set (columns df) \<Longrightarrow>
     set_column df name vals = map (\<lambda>(c, vs). if c = name then (c, vals) else (c, vs)) df"
proof (induction df name vals rule: set_column.induct)
  case (1 name vals)
  then show ?case by (simp add: columns_def)
next
  case (2 c vs rest name vals)
  show ?case
  proof (cases "c = name")
    case True
    with 2(2) have "name \<notin> fst ` set rest" by (simp add: columns_def)
    then have "map (\<lambda>(c, vs). if c = name then (c, vals) else (c, vs)) rest = rest"
      by (intro map_idI) (auto simp add: rev_image_eqI)
    with True show ?thesis by simp
  next
    case False
    with 2 show ?thesis by (simp add: columns_def)
  qed
qed

lemma set_column_absent:
  "name \<notin> set (columns df) \<Longrightarrow> set_column df name vals = df @ [(name, vals)]"
  by (induction df name vals rule: set_column.induct) (auto simp add: columns_def)

lemma wf_df_set_column:
  assumes "wf_df df" and "length vals = len df"
  shows "wf_df (set_column df name vals)"
proof -
  from assms(1) have ne: "df \<noteq> []" by (simp add: wf_df_def)
  have l: "len (set_column df name vals) = len df"
    using ne assms(2) by (simp add: len_set_column)
  have "set_column df name vals \<noteq> []"
    by (cases df) (auto split: if_splits)
  moreover have "distinct (columns (set_column df name vals))"
    using assms(1) by (simp add: columns_set_column wf_df_def)
  moreover have "list_all (\<lambda>(c, vs). length vs = len df) (set_column df name vals)"
  proof (cases "name \<in> set (columns df)")
    case True
    with assms show ?thesis
      by (auto simp add: set_column_present wf_df_def list_all_iff split: if_splits)
  next
    case False
    with assms show ?thesis
      by (auto simp add: set_column_absent wf_df_def list_all_iff)
  qed
  ultimately show ?thesis by (simp add: wf_df_def l)
qed

lemma example_env_counted:
  "path_exists env_counted ''in.csv''"
  "read_csv env_counted ''in.csv'' = Inr (range_index 1, df_counted)"
  "detect_url_col df_counted = Inr ''link''"
  "wf_df df_counted"
  "length (range_index 1) = len df_counted"
  "len df_counted = 1"
  "get_column df_counted ''link'' = [Val ''http://a'']"
  "to_csv env_counted path df = None"
  "new_page env_counted k = (\<lambda>a. pg_zero_ads)"
  "''number of ads'' \<in> set (columns df_counted)"
  by (simp_all add: env_counted_def df_counted_def detect_url_col_def columns_def lower_def
        lower_char_def wf_df_def len_def get_column_def length_range_index)

lemma row_outcome_zero_ads: "row_outcome (\<lambda>a. pg_zero_ads) (Val ''http://a'') = ''no ads''"
  by (simp add: row_outcome_eq valid_http_a retry_loop_unfold try_page_pg_zero_ads)

lemma filter_progress_retry_events: "filter is_progress (retry_events pages url) = []"
proof -
  have "\<forall>e \<in> set (retry_events pages url). \<not> is_progress e"
    using set_retry_events [of pages url] by auto
  then show ?thesis by (simp add: filter_empty_conv)
qed

lemma filter_progress_row_events:
  "filter is_progress (row_events cb pages total_rows index url) =
     (if cb then [Progress (index + 1) total_rows (row_message index total_rows url)] else [])"
  by (simp add: row_events_eq filter_progress_retry_events)

lemma filter_concat_map: "filter P (concat (map f xs)) = concat (map (\<lambda>x. filter P (f x)) xs)"
  by (induction xs) simp_all

lemma written_eq:
  assumes "path_exists env ip"
    and "read_csv env ip = Inr (index, df)"
    and "detect_url_col df = Inr url_col"
    and "wf_df df"
    and "length index = len df"
  shows "written (process_csv env ip op cb) =
        (rows_done cb index = len df
         \<and> to_csv env op
              (set_column df ''number of ads''
                 (map (\<lambda>k. Val (row_outcome (new_page env k) (get_column df url_col ! k))) [0..<len df]))
             = None)"
  using rows_done_le [of cb index]
  by (auto simp add: process_csv_rows [OF assms] Let_def written_def assms(5) split: option.splits)

lemma progress_events_of_run:
  assumes "path_exists env ip"
    and "read_csv env ip = Inr (index, df)"
    and "detect_url_col df = Inr url_col"
    and "wf_df df"
    and "length index = len df"
  shows "filter is_progress (fst (process_csv env ip op True)) =
           Progress 0 (len df) (found_message (len df) url_col)
           # map (\<lambda>k. Progress (label_int (index ! k) + 1) (len df)
                         (row_message (label_int (index ! k)) (len df) (get_column df url_col ! k)))
               [0..<rows_done True index]
           @ (if written (process_csv env ip op True)
              then [Progress (int (len df)) (len df) (done_message op)] else [])"
  using rows_done_le [of True index]
  by (auto simp add: written_def process_csv_rows [OF assms] Let_def filter_concat_map
        filter_progress_row_events assms(5) split: option.splits)

lemma no_progress_without_callback:
  assumes "path_exists env ip"
    and "read_csv env ip = Inr (index, df)"
    and "detect_url_col df = Inr url_col"
    and "wf_df df"
    and "length index = len df"
  shows "filter is_progress (fst (process_csv env ip op False)) = []"
  by (simp add: process_csv_rows [OF assms] Let_def filter_concat_map filter_progress_row_events
        split: option.splits)











section \<open>Retrying one row\<close>

lemma try_page_result:
  "if snd (try_page pg url)
   then fst (try_page pg url) = ''no ads'' \<or> visible_text pg batch_wait_timeout = Some (fst (try_page pg url))
   else startswith (fst (try_page pg url)) ''Error: ''"
  by (simp add: try_page_def split: option.splits sum.splits)

text \<open>
  C1: a row with a valid URL makes between one and three attempts. Every attempt but the
  last ended without \<open>break\<close>, with a result that starts with "Error: "; fewer than
  three attempts are made only when the last one left the loop by \<open>break\<close>; an
  attempt that leaves by \<open>break\<close> gives "no ads" or the visible text, any other attempt
  a result that starts with "Error: ". The value recorded is the result of the last
  attempt. \<open>Sleep 2\<close> occurs between consecutive attempts and not after the last one.
  A first attempt that succeeds gives one attempt and no such delay; three failing attempts
  give three attempts and two delays.
\<close>

theorem retry_policy:
  assumes "\<not> invalid_url url"
  shows "let ok = (\<lambda>k. snd (try_page (pages k) (str_cell url)));
             res = (\<lambda>k. fst (try_page (pages k) (str_cell url)));
             evs = retry_events pages url;
             n = count_list evs NewPage
         in row_body cb pages total_rows index url ex =
              (ex @ [res (n - 1)],
               (if cb then [Progress (index + 1) total_rows (row_message index total_rows url)] else [])
                 @ evs @ [Sleep 1])
          \<and> (\<forall>k. if ok k
                  then res k = ''no ads'' \<or> visible_text (pages k) batch_wait_timeout = Some (res k)
                  else startswith (res k) ''Error: '')
          \<and> 1 \<le> n \<and> n \<le> 3
          \<and> (\<forall>k < n - 1. \<not> ok k \<and> startswith (res k) ''Error: '')
          \<and> (n < 3 \<longrightarrow> ok (n - 1))
          \<and> evs = [NewPage, PageClose] @ concat (replicate (n - 1) [Sleep 2, NewPage, PageClose])
          \<and> count_list evs (Sleep 2) = n - 1
          \<and> (ok 0 \<longrightarrow> n = 1 \<and> count_list evs (Sleep 2) = 0)
          \<and> ((\<forall>k < 3. \<not> ok k) \<longrightarrow> n = 3 \<and> count_list evs (Sleep 2) = 2)"
proof -
  let ?ok = "\<lambda>k. snd (try_page (pages k) (str_cell url))"
  have two: "(\<forall>k < Suc (Suc 0). P k) = (P 0 \<and> P (Suc 0))" for P
    by (auto simp add: less_Suc_eq)
  have three: "(\<forall>k < 3. P k) = (P 0 \<and> P (Suc 0) \<and> P 2)" for P :: "nat \<Rightarrow> bool"
    by (auto simp add: less_Suc_eq numeral_3_eq_3 numeral_2_eq_2)
  note r = try_page_result [of "pages k" "str_cell url" for k]
  consider (first) "?ok 0" | (second) "\<not> ?ok 0" "?ok 1" | (third) "\<not> ?ok 0" "\<not> ?ok 1"
    by blast
  then show ?thesis
  proof cases
    case first
    with assms show ?thesis
      by (simp add: row_body_eq row_outcome_eq row_events_eq retry_events_def retry_loop_unfold three r)
  next
    case second
    with assms show ?thesis
      by (simp add: row_body_eq row_outcome_eq row_events_eq retry_events_def retry_loop_unfold
            three try_page_error r)
  next
    case third
    with assms show ?thesis
      by (simp add: row_body_eq row_outcome_eq row_events_eq retry_events_def retry_loop_unfold
            two three try_page_error numeral_2_eq_2 r)
  qed
qed

theorem retry_policy_witness:
  "\<not> invalid_url (Val ''http://a'')
   \<and> count_list (retry_events (\<lambda>k. pg_down) (Val ''http://a'')) NewPage = 3
   \<and> count_list (retry_events (\<lambda>k. pg_down) (Val ''http://a'')) (Sleep 2) = 2
   \<and> fst (row_body False (\<lambda>k. pg_down) 1 0 (Val ''http://a'') []) = [''Error: net::ERR_NAME_NOT_RESOLVED'']"
  using retry_policy [OF valid_http_a, of "\<lambda>k. pg_down" False 1 0 "[]"] valid_http_a
  by (simp add: Let_def try_page_pg_down)

section \<open>Rows with an invalid URL\<close>



section \<open>The polite delay\<close>

text \<open>
  C9: a row with an invalid URL takes no delay at all; a row with a valid URL takes the
  delay of 1 once, as its last event, after its retry loop. In a run that found its URL
  column the number of such delays is the number of rows with a valid URL among the rows
  the loop went through, which are all the rows unless line 89 raised.
\<close>

theorem polite_delay_only_after_retry_loop:
  assumes "path_exists env ip"
    and "read_csv env ip = Inr (index, df)"
    and "detect_url_col df = Inr url_col"
    and "wf_df df"
    and "length index = len df"
  shows "(\<forall>pages total_rows index url ex d.
            invalid_url url \<longrightarrow> Sleep d \<notin> set (snd (row_body cb pages total_rows index url ex)))
       \<and> (\<forall>pages total_rows index url ex.
            \<not> invalid_url url \<longrightarrow>
              last (snd (row_body cb pages total_rows index url ex)) = Sleep 1
              \<and> count_list (snd (row_body cb pages total_rows index url ex)) (Sleep 1) = 1)
       \<and> count_list (fst (process_csv env ip op cb)) (Sleep 1)
            = length (filter (\<lambda>i. \<not> invalid_url (get_column df url_col ! i)) [0..<rows_done cb index])
       \<and> (\<not> cb \<or> list_all is_number index \<longrightarrow>
            count_list (fst (process_csv env ip op cb)) (Sleep 1)
              = length (filter (\<lambda>i. \<not> invalid_url (get_column df url_col ! i)) [0..<len df]))"
proof -
  have run: "count_list (fst (process_csv env ip op cb)) (Sleep 1)
          = length (filter (\<lambda>i. \<not> invalid_url (get_column df url_col ! i)) [0..<rows_done cb index])"
    by (simp add: process_csv_rows [OF assms] Let_def count_list_concat_map
          count_row_events_sleep1 sum_list_indicator del: One_nat_def split: option.splits)
  have "rows_done cb index = len df" if "\<not> cb \<or> list_all is_number index"
    using that rows_done_all [of cb index] by (simp add: assms(5))
  with run have all: "\<not> cb \<or> list_all is_number index \<longrightarrow>
            count_list (fst (process_csv env ip op cb)) (Sleep 1)
              = length (filter (\<lambda>i. \<not> invalid_url (get_column df url_col ! i)) [0..<len df])"
    by auto
  have "Sleep d \<notin> set (snd (row_body cb pages total_rows index url ex))"
    if "invalid_url url" for pages total_rows index url ex d
    using that by (simp add: row_body_eq row_events_eq)
  moreover have "last (snd (row_body cb pages total_rows index url ex)) = Sleep 1
       \<and> count_list (snd (row_body cb pages total_rows index url ex)) (Sleep 1) = 1"
    if "\<not> invalid_url url" for pages total_rows index url ex
    using that by (simp add: row_body_eq row_events_eq count_retry_events_sleep1 del: One_nat_def)
  ultimately show ?thesis using run all by blast
qed

theorem polite_delay_only_after_retry_loop_witness:
  "path_exists env_two ''in.csv''
   \<and> read_csv env_two ''in.csv'' = Inr (range_index 2, df_two)
   \<and> detect_url_col df_two = Inr ''url''
   \<and> wf_df df_two
   \<and> length (range_index 2) = len df_two
   \<and> invalid_url NaN
   \<and> \<not> invalid_url (Val ''http://a'')
   \<and> list_all is_number (range_index 2)
   \<and> Sleep 1 \<notin> set (snd (row_body True (\<lambda>a. pg_zero_ads) 2 1 NaN []))
   \<and> count_list (fst (process_csv env_two ''in.csv'' ''out.csv'' True)) (Sleep 1) = 1"
  using polite_delay_only_after_retry_loop [OF example_env_two(1-5), of True "''out.csv''"]
    example_env_two(1-5) invalid_NaN valid_http_a list_all_range_index [of 2]
  by (simp add: example_env_two(6,7) upt_2)

section \<open>One outcome per row\<close>

text \<open>
  Every pass of the loop over the rows appends exactly one value. In a run that found its
  URL column and went through all its rows, the column assignment never fails for a wrong
  length, and the column "number of ads" passed to \<open>to_csv\<close> has one entry per row of the
  input, the entry at position \<open>k\<close> being the outcome of the \<open>k\<close>-th row.
\<close>

lemma outcomes_of_completed_run:
  assumes "path_exists env ip"
    and "read_csv env ip = Inr (index, df)"
    and "detect_url_col df = Inr url_col"
    and "wf_df df"
    and "length index = len df"
    and "\<not> cb \<or> list_all is_number index"
  shows "snd (process_csv env ip op cb) \<noteq> Inl ValueError"
    and "snd (process_csv env ip op cb) \<noteq> Inl TypeError"
    and "snd (process_csv env ip op cb) = Inr out \<Longrightarrow>
           length (get_column out ''number of ads'') = len df
           \<and> len out = len df
           \<and> (\<forall>k < len df. get_column out ''number of ads'' ! k
                  = Val (row_outcome (new_page env k) (get_column df url_col ! k)))"
proof -
  have ne: "df \<noteq> []" using assms(4) by (simp add: wf_df_def)
  have m: "rows_done cb index = len df"
    using rows_done_all [OF assms(6)] by (simp add: assms(5))
  show "snd (process_csv env ip op cb) \<noteq> Inl ValueError"
    by (simp add: process_csv_rows [OF assms(1-5)] Let_def m split: option.splits)
  show "snd (process_csv env ip op cb) \<noteq> Inl TypeError"
    by (simp add: process_csv_rows [OF assms(1-5)] Let_def m split: option.splits)
  show "length (get_column out ''number of ads'') = len df
           \<and> len out = len df
           \<and> (\<forall>k < len df. get_column out ''number of ads'' ! k
                  = Val (row_outcome (new_page env k) (get_column df url_col ! k)))"
    if "snd (process_csv env ip op cb) = Inr out"
    using that ne
    by (auto simp add: process_csv_rows [OF assms(1-5)] Let_def m get_column_set_column
        len_set_column split: option.splits)
qed

text \<open>
  C2 does not hold of the code. On the table read from the file \<open>url\<close>, \<open>http://a,\<close>,
  \<open>http://b,\<close>, whose two rows are labelled by texts, a run with a callback raises
  \<open>TypeError\<close> at \<open>index + 1\<close> in the first row: after the first progress call and the
  launch of the browser no row gets an outcome, the browser is not closed and no table is
  written. Without a callback the same table gives both rows the outcome "Invalid URL".
\<close>

theorem text_labels_abort_run:
  "len df_trailing = 2
   \<and> process_csv env_trailing ''in.csv'' ''out.csv'' True =
       ([Progress 0 2 (found_message 2 ''url''), Launch, NewContext], Inl TypeError)
   \<and> snd (process_csv env_trailing ''in.csv'' ''out.csv'' False) =
       Inr [(''url'', [NaN, NaN]), (''number of ads'', [Val ''Invalid URL'', Val ''Invalid URL''])]"
proof -
  have o: "row_outcome pages NaN = ''Invalid URL''" for pages
    by (simp add: row_outcome_eq invalid_NaN)
  have g: "get_column df_trailing ''url'' = [NaN, NaN]"
    by (simp add: df_trailing_def get_column_def)
  have t: "to_csv env_trailing path df = None" for path df
    by (simp add: env_trailing_def)
  have "process_csv env_trailing ''in.csv'' ''out.csv'' True =
       ([Progress 0 2 (found_message 2 ''url''), Launch, NewContext], Inl TypeError)"
    by (simp add: process_csv_rows [OF example_env_trailing(1-5)] Let_def example_env_trailing(6,7))
  moreover have "snd (process_csv env_trailing ''in.csv'' ''out.csv'' False) =
       Inr [(''url'', [NaN, NaN]), (''number of ads'', [Val ''Invalid URL'', Val ''Invalid URL''])]"
    by (simp add: process_csv_rows [OF example_env_trailing(1-5)] Let_def example_env_trailing(6,8)
          upt_2 g o t)
      (simp add: df_trailing_def)
  ultimately show ?thesis by (simp add: example_env_trailing(6))
qed

section \<open>The table written\<close>

text \<open>
  C10: in a run that found its URL column and went through all its rows (it does unless
  line 89 raised \<open>TypeError\<close>, and then nothing is written), the table passed to
  \<open>to_csv\<close>, which is the table written when \<open>to_csv\<close> does not raise, is the input with
  the column "number of ads" set to the outcomes of the rows. If the input has that column, the
  columns keep their names and order and only that column's values are replaced; if not,
  the column is added after the others. Every other column keeps its values, and the
  result is again a table with as many rows.
\<close>

theorem output_table_frame:
  assumes "path_exists env ip"
    and "read_csv env ip = Inr (index, df)"
    and "detect_url_col df = Inr url_col"
    and "wf_df df"
    and "length index = len df"
  shows "let vals = map (\<lambda>i. Val (row_outcome (new_page env i) (get_column df url_col ! i))) [0..<len df];
             out = (if ''number of ads'' \<in> set (columns df)
                    then map (\<lambda>(c, vs). if c = ''number of ads'' then (c, vals) else (c, vs)) df
                    else df @ [(''number of ads'', vals)])
         in snd (process_csv env ip op cb) =
              (if cb \<and> \<not> list_all is_number index then Inl TypeError
               else case to_csv env op out of
                 None \<Rightarrow> Inr out
               | Some e \<Rightarrow> Inl (Exception (''Error writing output CSV: '' @ e)))
          \<and> out = set_column df ''number of ads'' vals
          \<and> columns out = (if ''number of ads'' \<in> set (columns df) then columns df
                            else columns df @ [''number of ads''])
          \<and> (\<forall>c. c \<noteq> ''number of ads'' \<longrightarrow> map_of out c = map_of df c)
          \<and> map_of out ''number of ads'' = Some vals
          \<and> wf_df out \<and> len out = len df"
proof -
  define vals where
    "vals = map (\<lambda>i. Val (row_outcome (new_page env i) (get_column df url_col ! i))) [0..<len df]"
  define out where "out = set_column df ''number of ads'' vals"
  have lv: "length vals = len df" by (simp add: vals_def)
  have ne: "df \<noteq> []" and d: "distinct (columns df)"
    using assms(4) by (simp_all add: wf_df_def)
  have form: "out = (if ''number of ads'' \<in> set (columns df)
                    then map (\<lambda>(c, vs). if c = ''number of ads'' then (c, vals) else (c, vs)) df
                    else df @ [(''number of ads'', vals)])"
    using d by (simp add: out_def set_column_present set_column_absent)
  have run: "snd (process_csv env ip op cb) =
              (if cb \<and> \<not> list_all is_number index then Inl TypeError
               else case to_csv env op out of
                 None \<Rightarrow> Inr out
               | Some e \<Rightarrow> Inl (Exception (''Error writing output CSV: '' @ e)))"
    using rows_done_less [of cb index]
    by (simp add: process_csv_rows [OF assms] Let_def out_def vals_def assms(5) split: option.splits)
  have cols: "columns out = (if ''number of ads'' \<in> set (columns df) then columns df
                            else columns df @ [''number of ads''])"
    by (simp add: out_def columns_set_column)
  have other: "\<forall>c. c \<noteq> ''number of ads'' \<longrightarrow> map_of out c = map_of df c"
    by (simp add: out_def map_of_set_column)
  have this_col: "map_of out ''number of ads'' = Some vals"
    by (simp add: out_def map_of_set_column)
  have wf: "wf_df out"
    unfolding out_def using assms(4) lv by (rule wf_df_set_column)
  have l: "len out = len df"
    using ne lv by (simp add: out_def len_set_column)
  show ?thesis
    unfolding Let_def vals_def [symmetric] form [symmetric]
    using run cols other this_col wf l out_def by blast
qed

theorem output_table_frame_witness:
  "path_exists env_counted ''in.csv''
   \<and> read_csv env_counted ''in.csv'' = Inr (range_index 1, df_counted)
   \<and> detect_url_col df_counted = Inr ''link''
   \<and> wf_df df_counted
   \<and> length (range_index 1) = len df_counted
   \<and> snd (process_csv env_counted ''in.csv'' ''out.csv'' True)
        = Inr [(''number of ads'', [Val ''no ads'']), (''link'', [Val ''http://a''])]"
  using output_table_frame [OF example_env_counted(1-5), where op = "''out.csv''" and cb = True]
    example_env_counted(1-5) list_all_range_index [of 1]
  by (simp add: Let_def example_env_counted(6-10) row_outcome_zero_ads)
    (simp add: df_counted_def)

section \<open>Progress calls\<close>

lemma label_int_range_index: "k < n \<Longrightarrow> label_int (range_index n ! k) = int k"
  by (simp add: range_index_def)

text \<open>
  C6, as stated, fails: on a table of two rows that is written, the callback is called
  four times, not three; the call for a row comes first in the row, before its page is
  opened, and a last call follows the writing of the table.
\<close>

theorem progress_calls_counterexample:
  "len df_two = 2
   \<and> length (filter is_progress (fst (process_csv env_two ''in.csv'' ''out.csv'' True))) = 4
   \<and> length (filter is_progress (fst (process_csv env_two ''in.csv'' ''out.csv'' True))) \<noteq> len df_two + 1
   \<and> fst (process_csv env_two ''in.csv'' ''out.csv'' True) =
       [Progress 0 2 (found_message 2 ''url''), Launch, NewContext,
        Progress 1 2 (row_message 0 2 (Val ''http://a'')), NewPage, PageClose, Sleep 1,
        Progress 2 2 (row_message 1 2 NaN),
        BrowserClose, ToCsv ''out.csv'', Progress 2 2 (done_message ''out.csv'')]"
proof -
  have r: "row_events True (\<lambda>a. pg_zero_ads) 2 0 (Val ''http://a'') =
      [Progress 1 2 (row_message 0 2 (Val ''http://a'')), NewPage, PageClose, Sleep 1]"
    by (simp add: row_events_eq valid_http_a retry_events_def retry_loop_unfold try_page_pg_zero_ads)
  have q: "row_events True (\<lambda>a. pg_zero_ads) 2 1 NaN = [Progress 2 2 (row_message 1 2 NaN)]"
    by (simp add: row_events_eq invalid_NaN)
  have "fst (process_csv env_two ''in.csv'' ''out.csv'' True) =
       [Progress 0 2 (found_message 2 ''url''), Launch, NewContext,
        Progress 1 2 (row_message 0 2 (Val ''http://a'')), NewPage, PageClose, Sleep 1,
        Progress 2 2 (row_message 1 2 NaN),
        BrowserClose, ToCsv ''out.csv'', Progress 2 2 (done_message ''out.csv'')]"
    by (simp add: process_csv_rows [OF example_env_two(1-5)] Let_def example_env_two(6-9) upt_2 r q
          rows_done_range_index label_int_range_index)
  then show ?thesis by (simp add: example_env_two(6))
qed

text \<open>
  C6, amended: in a run that found its URL column, was given a callback and whose rows
  carry the labels 0 to \<open>n - 1\<close> that \<open>read_csv\<close> gives by default, the calls of the
  callback are, in order: one with \<open>current = 0\<close> at the start; one per row, first thing
  in the row, before its URL is checked and any page opened, with
  \<open>(index + 1, total, message)\<close> for the labels 0 to \<open>n - 1\<close> in order; and, when the
  table was written, one more with \<open>(n, n, message)\<close>. That is \<open>n + 2\<close> calls when the
  table is written and \<open>n + 1\<close> when writing it raises. Without a callback there is none.
\<close>

theorem progress_calls_per_run:
  assumes "path_exists env ip"
    and "read_csv env ip = Inr (range_index (len df), df)"
    and "detect_url_col df = Inr url_col"
    and "wf_df df"
  shows "let n = len df;
             calls = filter is_progress (fst (process_csv env ip op True))
         in calls = Progress 0 n (found_message n url_col)
                    # map (\<lambda>i. Progress (int i + 1) n (row_message (int i) n (get_column df url_col ! i)))
                        [0..<n]
                    @ (if written (process_csv env ip op True)
                       then [Progress (int n) n (done_message op)] else [])
          \<and> length calls = (if written (process_csv env ip op True) then n + 2 else n + 1)
          \<and> (\<forall>pages total_rows index url ex.
                hd (snd (row_body True pages total_rows index url ex))
                  = Progress (index + 1) total_rows (row_message index total_rows url)
                \<and> filter is_progress (tl (snd (row_body True pages total_rows index url ex))) = [])
          \<and> filter is_progress (fst (process_csv env ip op False)) = []"
proof -
  note run = assms length_range_index [of "len df"]
  have m: "map (\<lambda>k. Progress (label_int (range_index (len df) ! k) + 1) (len df)
                   (row_message (label_int (range_index (len df) ! k)) (len df)
                      (get_column df url_col ! k))) [0..<len df]
         = map (\<lambda>i. Progress (int i + 1) (len df) (row_message (int i) (len df) (get_column df url_col ! i)))
             [0..<len df]"
    by (intro map_cong) (simp_all add: label_int_range_index)
  have c: "filter is_progress (fst (process_csv env ip op True)) =
       Progress 0 (len df) (found_message (len df) url_col)
       # map (\<lambda>i. Progress (int i + 1) (len df) (row_message (int i) (len df) (get_column df url_col ! i)))
           [0..<len df]
       @ (if written (process_csv env ip op True)
          then [Progress (int (len df)) (len df) (done_message op)] else [])"
    unfolding progress_events_of_run [OF run] rows_done_range_index m ..
  have r: "hd (snd (row_body True pages total_rows index url ex))
             = Progress (index + 1) total_rows (row_message index total_rows url)
           \<and> filter is_progress (tl (snd (row_body True pages total_rows index url ex))) = []"
    for pages total_rows index url ex
    by (simp add: row_body_eq row_events_eq filter_progress_retry_events)
  have n: "filter is_progress (fst (process_csv env ip op False)) = []"
    using run by (rule no_progress_without_callback)
  show ?thesis
    unfolding Let_def using r n by (simp add: c)
qed

theorem progress_calls_per_run_witness:
  "path_exists env_two ''in.csv''
   \<and> read_csv env_two ''in.csv'' = Inr (range_index (len df_two), df_two)
   \<and> detect_url_col df_two = Inr ''url''
   \<and> wf_df df_two
   \<and> written (process_csv env_two ''in.csv'' ''out.csv'' True)
   \<and> length (filter is_progress (fst (process_csv env_two ''in.csv'' ''out.csv'' True))) = 4"
proof -
  have rd: "read_csv env_two ''in.csv'' = Inr (range_index (len df_two), df_two)"
    by (simp add: example_env_two(2,6))
  have w: "written (process_csv env_two ''in.csv'' ''out.csv'' True)"
    by (simp add: written_eq [OF example_env_two(1-5)] example_env_two(6,8) rows_done_range_index)
  with progress_calls_per_run [OF example_env_two(1) rd example_env_two(3,4), of "''out.csv''"]
    example_env_two(1,3,4) rd
  show ?thesis by (simp add: Let_def example_env_two(6))
qed

text \<open>
  On other integer labels the callback gets the label plus 1: for the single row
  labelled 5 it is called with \<open>current = 6\<close> of \<open>total = 1\<close>.
\<close>

lemma integer_label_progress:
  "filter is_progress (fst (process_csv env_labelled ''in.csv'' ''out.csv'' True)) =
     [Progress 0 1 (found_message 1 ''url''),
      Progress 6 1 (row_message 5 1 (Val ''http://a'')),
      Progress 1 1 (done_message ''out.csv'')]"
proof -
  have e: "path_exists env_labelled ''in.csv''"
    "read_csv env_labelled ''in.csv'' = Inr ([IntLabel 5], df_labelled)"
    "detect_url_col df_labelled = Inr ''url''"
    "wf_df df_labelled"
    "length [IntLabel 5] = len df_labelled"
    by (simp_all add: env_labelled_def df_labelled_def detect_url_col_def columns_def lower_def
          lower_char_def wf_df_def len_def)
  have l: "len df_labelled = 1" "get_column df_labelled ''url'' = [Val ''http://a'']"
    "to_csv env_labelled path df = None" for path df
    by (simp_all add: env_labelled_def df_labelled_def len_def get_column_def)
  have m: "rows_done True [IntLabel 5] = 1"
    by (simp add: rows_done_def no_type_error_def)
  show ?thesis
    by (simp add: progress_events_of_run [OF e] written_eq [OF e] l m)
qed

section \<open>The browser session and its pages\<close>




end
